theory Spec2Isabelle
  imports Main
begin

section \<open>Data model of the solver\<close>

text \<open>
  A literal is a Python \<open>int\<close>, a clause a Python \<open>set\<close> of literals, the formula a list of
  clauses and the assignment a \<open>dict\<close> from variables to Booleans. The caller hands in
  lists of lists. Python sets are finite; \<open>len(c) == 0\<close> is \<open>c = {}\<close> and
  \<open>len(c) == 1\<close> is \<open>card c = 1\<close> (true of singletons only).
\<close>

type_synonym clause = "int set"
type_synonym assignment = "int \<rightharpoonup> bool"

definition clauses_to_sets :: "int list list \<Rightarrow> clause list" where
  "clauses_to_sets clauses = map set clauses"

definition is_satisfied_clause :: "clause \<Rightarrow> assignment \<Rightarrow> bool" where
  "is_satisfied_clause clause assignment =
     (\<exists>lit\<in>clause.
        case assignment \<bar>lit\<bar> of
          None \<Rightarrow> False
        | Some val \<Rightarrow> (lit > 0 \<and> val) \<or> (lit < 0 \<and> \<not> val))"

definition contains_empty_clause :: "clause list \<Rightarrow> bool" where
  "contains_empty_clause clauses = (\<exists>c\<in>set clauses. c = {})"

section \<open>Unit propagation\<close>

text \<open>
  The clause loop inside \<open>_unit_propagate\<close> that follows the assignment of \<open>lit\<close>:
  \<open>None\<close> is the early return taken when removing \<open>-lit\<close> empties a clause.
\<close>

fun up_simplify :: "int \<Rightarrow> clause list \<Rightarrow> clause list option" where
  "up_simplify lit [] = Some []"
| "up_simplify lit (c # cs) =
     (if lit \<in> c then up_simplify lit cs
      else if - lit \<in> c then
        (let new_c = c - {- lit} in
         if new_c = {} then None
         else map_option ((#) new_c) (up_simplify lit cs))
      else map_option ((#) c) (up_simplify lit cs))"

text \<open>
  The loop \<open>for lit in unit_lits\<close>. \<open>Inl\<close> is a \<open>return\<close> from inside the loop (always
  with the conflict flag set), \<open>Inr\<close> the state when the loop runs to its end. The conflict
  return hands back the clause list as it was before the current literal's
  simplification and the assignment as it is at that moment.
\<close>

fun up_units ::
  "int list \<Rightarrow> clause list \<Rightarrow> assignment \<Rightarrow>
     (clause list \<times> assignment \<times> bool) + (clause list \<times> assignment)" where
  "up_units [] clauses assignment = Inr (clauses, assignment)"
| "up_units (lit # rest) clauses assignment =
     (let var = \<bar>lit\<bar>; val = (lit > 0) in
      case assignment var of
        Some b \<Rightarrow>
          if b \<noteq> val then Inl (clauses, assignment, True)
          else up_units rest clauses assignment
      | None \<Rightarrow>
          (let assignment' = assignment(var \<mapsto> val) in
           case up_simplify lit clauses of
             None \<Rightarrow> Inl (clauses, assignment', True)
           | Some new_clauses \<Rightarrow> up_units rest new_clauses assignment'))"

definition unit_lits_of :: "clause list \<Rightarrow> int list" where
  "unit_lits_of clauses = map the_elem (filter (\<lambda>c. card c = 1) clauses)"

text \<open>
  The \<open>while True\<close> loop. Nothing in the source bounds it, so it is a partial function:
  \<open>None\<close> means that the loop never ends.
\<close>

partial_function (option) unit_propagate ::
  "clause list \<Rightarrow> assignment \<Rightarrow> (clause list \<times> assignment \<times> bool) option" where
  "unit_propagate clauses assignment =
     (let unit_lits = unit_lits_of clauses in
      if unit_lits = [] then Some (clauses, assignment, False)
      else case up_units unit_lits clauses assignment of
             Inl r \<Rightarrow> Some r
           | Inr (clauses', assignment') \<Rightarrow> unit_propagate clauses' assignment')"

section \<open>Occurrence counting\<close>

text \<open>
  \<open>_pure_literal_elim\<close> and \<open>_choose_branch_var\<close> start with the same pair of nested
  loops, \<open>for c in clauses: for lit in c:\<close>, which skip a literal whose variable is
  assigned and otherwise add one to \<open>pos_occ[var]\<close> when \<open>lit > 0\<close> and to
  \<open>neg_occ[var]\<close> when not. The tables are only read with \<open>.get(var, 0)\<close>, so each is
  the function from a variable to its count; a variable is a key of a table exactly when
  its count there is positive.
\<close>

definition pos_occ :: "clause list \<Rightarrow> assignment \<Rightarrow> int \<Rightarrow> nat" where
  "pos_occ clauses assignment var =
     (\<Sum>c\<leftarrow>clauses. card {lit \<in> c. \<bar>lit\<bar> = var \<and> \<bar>lit\<bar> \<notin> dom assignment \<and> lit > 0})"

definition neg_occ :: "clause list \<Rightarrow> assignment \<Rightarrow> int \<Rightarrow> nat" where
  "neg_occ clauses assignment var =
     (\<Sum>c\<leftarrow>clauses. card {lit \<in> c. \<bar>lit\<bar> = var \<and> \<bar>lit\<bar> \<notin> dom assignment \<and> \<not> lit > 0})"

text \<open>The keys of the two tables together: \<open>set(list(pos_occ.keys()) + list(neg_occ.keys()))\<close>.\<close>

definition occ_keys :: "clause list \<Rightarrow> assignment \<Rightarrow> int set" where
  "occ_keys clauses assignment =
     (\<Union>c\<in>set clauses. abs ` {lit \<in> c. \<bar>lit\<bar> \<notin> dom assignment})"

section \<open>Pure literal elimination\<close>

text \<open>
  \<open>pure_vars\<close> is built by a loop over a set, whose order Python does not fix; it holds
  each variable at most once. The loop over \<open>pure_vars\<close> then stores each value in the
  assignment and drops the clauses that contain the literal made true. Both effects are
  the same in every order, so \<open>pure_vars\<close> is a set here and one pass is given by its
  result.
\<close>

definition pure_vars :: "clause list \<Rightarrow> assignment \<Rightarrow> (int \<times> bool) set" where
  "pure_vars clauses assignment =
     (let keys = {var \<in> occ_keys clauses assignment. var \<notin> dom assignment};
          p = pos_occ clauses assignment;
          n = neg_occ clauses assignment
      in (\<lambda>var. (var, True)) ` {var \<in> keys. p var > 0 \<and> n var = 0} \<union>
         (\<lambda>var. (var, False)) ` {var \<in> keys. \<not> (p var > 0 \<and> n var = 0) \<and> n var > 0 \<and> p var = 0})"

definition pure_lit :: "int \<times> bool \<Rightarrow> int" where
  "pure_lit vv = (case vv of (var, val) \<Rightarrow> if val then var else - var)"

definition pure_assign :: "(int \<times> bool) set \<Rightarrow> assignment \<Rightarrow> assignment" where
  "pure_assign pv assignment =
     (\<lambda>var. if (var, True) \<in> pv then Some True
            else if (var, False) \<in> pv then Some False
            else assignment var)"

definition pure_drop :: "(int \<times> bool) set \<Rightarrow> clause list \<Rightarrow> clause list" where
  "pure_drop pv clauses = filter (\<lambda>c. \<forall>vv\<in>pv. pure_lit vv \<notin> c) clauses"

function pure_literal_elim :: "clause list \<Rightarrow> assignment \<Rightarrow> clause list \<times> assignment" where
  "pure_literal_elim clauses assignment =
     (let pv = pure_vars clauses assignment in
      if pv = {} then (clauses, assignment)
      else pure_literal_elim (pure_drop pv clauses) (pure_assign pv assignment))"
  by pat_completeness auto

section \<open>Branching heuristic\<close>

definition choose_step ::
  "clause list \<Rightarrow> assignment \<Rightarrow> int \<Rightarrow> int option \<times> int \<times> bool \<Rightarrow> int option \<times> int \<times> bool" where
  "choose_step clauses assignment var best =
     (case best of (best_var, best_score, best_pref) \<Rightarrow>
        if var \<in> dom assignment then best
        else
          (let p = pos_occ clauses assignment var;
               n = neg_occ clauses assignment var;
               score = int p + int n
           in if score > best_score then (Some var, score, p \<ge> n) else best))"

definition choose_branch_var :: "clause list \<Rightarrow> assignment \<Rightarrow> int \<Rightarrow> int option \<times> bool" where
  "choose_branch_var clauses assignment num_vars =
     (case fold (choose_step clauses assignment) [1..num_vars] (None, - 1, True) of
        (best_var, best_score, best_pref) \<Rightarrow> (best_var, best_pref))"

section \<open>Simplification after a decision, and the model\<close>

fun simplify_after_assignment :: "clause list \<Rightarrow> int \<Rightarrow> clause list" where
  "simplify_after_assignment [] lit = []"
| "simplify_after_assignment (c # cs) lit =
     (if lit \<in> c then simplify_after_assignment cs lit
      else if - lit \<in> c then (c - {- lit}) # simplify_after_assignment cs lit
      else c # simplify_after_assignment cs lit)"

definition build_model :: "assignment \<Rightarrow> int \<Rightarrow> int list" where
  "build_model assignment num_vars =
     map (\<lambda>v. let val = (case assignment v of None \<Rightarrow> False | Some b \<Rightarrow> b)
              in if val then v else - v) [1..num_vars]"

section \<open>The recursive search\<close>

text \<open>
  \<open>_dpll\<close> returns a pair \<open>(sat_flag, assignment)\<close>; \<open>None\<close> stands for a call that
  does not return because unit propagation does not. The loop
  \<open>for try_val in (pref_val, not pref_val)\<close> is \<open>dpll_branch\<close>, which carries the values
  still to be tried; its \<open>continue\<close> and the fall through after an unsuccessful recursive
  call both go on with the rest of the tuple.
\<close>

function dpll :: "clause list \<Rightarrow> assignment \<Rightarrow> int \<Rightarrow> (bool \<times> assignment) option"
  and dpll_branch ::
    "clause list \<Rightarrow> assignment \<Rightarrow> int \<Rightarrow> int \<Rightarrow> bool list \<Rightarrow> (bool \<times> assignment) option"
where
  "dpll clauses assignment num_vars =
     (case unit_propagate clauses assignment of
        None \<Rightarrow> None
      | Some (clauses1, assignment1, conflict) \<Rightarrow>
          if conflict then Some (False, Map.empty)
          else
            (case pure_literal_elim clauses1 assignment1 of
               (clauses2, assignment2) \<Rightarrow>
                 if clauses2 = [] then Some (True, assignment2)
                 else if contains_empty_clause clauses2 then Some (False, Map.empty)
                 else
                   (case choose_branch_var clauses2 assignment2 num_vars of
                      (None, pref_val) \<Rightarrow> Some (False, Map.empty)
                    | (Some var, pref_val) \<Rightarrow>
                        dpll_branch clauses2 assignment2 num_vars var [pref_val, \<not> pref_val])))"
| "dpll_branch clauses assignment num_vars var [] = Some (False, Map.empty)"
| "dpll_branch clauses assignment num_vars var (try_val # rest) =
     (let lit = (if try_val then var else - var);
          new_assignment = assignment(var \<mapsto> try_val);
          new_clauses = simplify_after_assignment clauses lit
      in if (\<exists>c\<in>set new_clauses. c = {})
         then dpll_branch clauses assignment num_vars var rest
         else
           (case dpll new_clauses new_assignment num_vars of
              None \<Rightarrow> None
            | Some (sat, final_assignment) \<Rightarrow>
                if sat then Some (True, final_assignment)
                else dpll_branch clauses assignment num_vars var rest))"
  by pat_completeness auto

section \<open>The two definitions of \<open>solve_cnf\<close> and the module's binding\<close>

text \<open>The first definition in the file, which runs the search.\<close>

definition solve_cnf_first :: "int list list \<Rightarrow> int \<Rightarrow> (string \<times> int list option) option" where
  "solve_cnf_first clauses num_vars =
     (let clause_sets = clauses_to_sets clauses in
      case dpll clause_sets Map.empty num_vars of
        None \<Rightarrow> None
      | Some (sat, assignment) \<Rightarrow>
          if sat then Some (''SAT'', Some (build_model assignment num_vars))
          else Some (''UNSAT'', None))"

datatype error = NotImplementedError | NameError

text \<open>
  What a call of a module-level function does: it raises (\<open>Inl\<close>) or returns (\<open>Inr\<close>); the
  outer \<open>None\<close> is a call that does neither.
\<close>

type_synonym solve_fun = "int list list \<Rightarrow> int \<Rightarrow> (error + string \<times> int list option) option"

text \<open>The second definition in the file, whose body is \<open>raise NotImplementedError\<close>.\<close>

definition solve_cnf_second :: solve_fun where
  "solve_cnf_second clauses num_vars = Some (Inl NotImplementedError)"

text \<open>
  Executing the module runs its \<open>def\<close> statements from top to bottom; each binds its name
  in the module's namespace, replacing what the name was bound to before. Looking up a
  name that was never bound raises \<open>NameError\<close>.
\<close>

definition exec_defs :: "(string \<times> 'f) list \<Rightarrow> (string \<rightharpoonup> 'f) \<Rightarrow> (string \<rightharpoonup> 'f)" where
  "exec_defs defs namespace = fold (\<lambda>(name, f) ns. ns(name \<mapsto> f)) defs namespace"

definition solver_module :: "(string \<times> solve_fun) list" where
  "solver_module =
     [(''solve_cnf'', \<lambda>clauses num_vars. map_option Inr (solve_cnf_first clauses num_vars)),
      (''solve_cnf'', solve_cnf_second)]"

definition solve_cnf :: solve_fun where
  "solve_cnf clauses num_vars =
     (case exec_defs solver_module Map.empty ''solve_cnf'' of
        None \<Rightarrow> Some (Inl NameError)
      | Some f \<Rightarrow> f clauses num_vars)"

text \<open>The number of variables of \<open>1..num_vars\<close> outside a set of assigned ones: what the search uses up.\<close>

definition unassigned :: "int set \<Rightarrow> int \<Rightarrow> nat" where
  "unassigned D n = card ({1..n} - D)"

section \<open>Occurrence counts in closed form\<close>

lemma pos_lit_iff:
  "(\<bar>lit\<bar> = var \<and> \<bar>lit\<bar> \<notin> dom a \<and> lit > 0) \<longleftrightarrow> (lit = var \<and> var \<notin> dom a \<and> 0 < var)"
  for lit var :: int
  by (cases "lit > 0") auto

lemma neg_lit_iff:
  "(\<bar>lit\<bar> = var \<and> \<bar>lit\<bar> \<notin> dom a \<and> \<not> lit > 0) \<longleftrightarrow> (lit = - var \<and> var \<notin> dom a \<and> 0 \<le> var)"
  for lit var :: int
  by (cases "lit > 0") auto

lemma pos_card:
  "card {lit \<in> (c::int set). \<bar>lit\<bar> = var \<and> \<bar>lit\<bar> \<notin> dom a \<and> lit > 0} =
     (if var \<notin> dom a \<and> 0 < var \<and> var \<in> c then 1 else 0)"
proof -
  have "{lit \<in> c. \<bar>lit\<bar> = var \<and> \<bar>lit\<bar> \<notin> dom a \<and> lit > 0} =
        (if var \<notin> dom a \<and> 0 < var \<and> var \<in> c then {var} else {})"
    unfolding pos_lit_iff by auto
  then show ?thesis by simp
qed

lemma neg_card:
  "card {lit \<in> (c::int set). \<bar>lit\<bar> = var \<and> \<bar>lit\<bar> \<notin> dom a \<and> \<not> lit > 0} =
     (if var \<notin> dom a \<and> 0 \<le> var \<and> - var \<in> c then 1 else 0)"
proof -
  have "{lit \<in> c. \<bar>lit\<bar> = var \<and> \<bar>lit\<bar> \<notin> dom a \<and> \<not> lit > 0} =
        (if var \<notin> dom a \<and> 0 \<le> var \<and> - var \<in> c then {- var} else {})"
    unfolding neg_lit_iff by auto
  then show ?thesis by simp
qed

lemma pos_occ_length:
  "pos_occ cs a var = length (filter (\<lambda>c. var \<notin> dom a \<and> 0 < var \<and> var \<in> c) cs)"
  unfolding pos_occ_def pos_card by (induction cs) auto

lemma neg_occ_length:
  "neg_occ cs a var = length (filter (\<lambda>c. var \<notin> dom a \<and> 0 \<le> var \<and> - var \<in> c) cs)"
  unfolding neg_occ_def neg_card by (induction cs) auto

lemma pos_occ_pos_iff:
  "0 < pos_occ cs a var \<longleftrightarrow> var \<notin> dom a \<and> 0 < var \<and> (\<exists>c\<in>set cs. var \<in> c)"
  by (auto simp: pos_occ_length filter_empty_conv)

lemma neg_occ_pos_iff:
  "0 < neg_occ cs a var \<longleftrightarrow> var \<notin> dom a \<and> 0 \<le> var \<and> (\<exists>c\<in>set cs. - var \<in> c)"
  by (auto simp: neg_occ_length filter_empty_conv)

lemma occ_keys_iff:
  "var \<in> occ_keys cs a \<longleftrightarrow> var \<notin> dom a \<and> (\<exists>c\<in>set cs. \<exists>lit\<in>c. \<bar>lit\<bar> = var)"
  by (auto simp: occ_keys_def)

lemma occ_keys_pos: "0 < pos_occ cs a var \<Longrightarrow> var \<in> occ_keys cs a"
  unfolding pos_occ_pos_iff occ_keys_iff by (metis abs_of_pos)

lemma occ_keys_neg: "0 < neg_occ cs a var \<Longrightarrow> var \<in> occ_keys cs a"
  unfolding neg_occ_pos_iff occ_keys_iff by (metis abs_minus abs_of_nonneg)

lemma pure_vars_True_iff:
  "(var, True) \<in> pure_vars cs a \<longleftrightarrow>
     var \<notin> dom a \<and> 0 < var \<and> (\<exists>c\<in>set cs. var \<in> c) \<and> (\<forall>c\<in>set cs. - var \<notin> c)"
proof -
  have "(var, True) \<in> pure_vars cs a \<longleftrightarrow> 0 < pos_occ cs a var \<and> neg_occ cs a var = 0"
    unfolding pure_vars_def Let_def
    using occ_keys_pos[of cs a var] pos_occ_pos_iff[of cs a var] by (auto simp: image_iff)
  also have "\<dots> \<longleftrightarrow> 0 < pos_occ cs a var \<and> \<not> 0 < neg_occ cs a var" by simp
  also have "\<dots> \<longleftrightarrow> var \<notin> dom a \<and> 0 < var \<and> (\<exists>c\<in>set cs. var \<in> c) \<and> (\<forall>c\<in>set cs. - var \<notin> c)"
    unfolding pos_occ_pos_iff neg_occ_pos_iff by auto
  finally show ?thesis .
qed

lemma pure_vars_False_iff:
  "(var, False) \<in> pure_vars cs a \<longleftrightarrow>
     var \<notin> dom a \<and> 0 \<le> var \<and> (\<exists>c\<in>set cs. - var \<in> c) \<and> (0 < var \<longrightarrow> (\<forall>c\<in>set cs. var \<notin> c))"
proof -
  have "(var, False) \<in> pure_vars cs a \<longleftrightarrow> 0 < neg_occ cs a var \<and> pos_occ cs a var = 0"
    unfolding pure_vars_def Let_def
    using occ_keys_neg[of cs a var] neg_occ_pos_iff[of cs a var] by (auto simp: image_iff)
  also have "\<dots> \<longleftrightarrow> 0 < neg_occ cs a var \<and> \<not> 0 < pos_occ cs a var" by simp
  also have "\<dots> \<longleftrightarrow> var \<notin> dom a \<and> 0 \<le> var \<and> (\<exists>c\<in>set cs. - var \<in> c) \<and> (0 < var \<longrightarrow> (\<forall>c\<in>set cs. var \<notin> c))"
    unfolding pos_occ_pos_iff neg_occ_pos_iff by auto
  finally show ?thesis .
qed

section \<open>Pure literal elimination ends\<close>

lemma pure_vars_occurs:
  assumes "vv \<in> pure_vars cs a"
  shows "\<exists>c\<in>set cs. pure_lit vv \<in> c"
proof (cases vv)
  case (Pair var val)
  with assms show ?thesis
    by (cases val) (auto simp: pure_lit_def pure_vars_True_iff pure_vars_False_iff)
qed

lemma pure_drop_length:
  assumes "pure_vars cs a \<noteq> {}"
  shows "length (pure_drop (pure_vars cs a) cs) < length cs"
proof -
  from assms obtain vv where vv: "vv \<in> pure_vars cs a" by blast
  then obtain c where "c \<in> set cs" "pure_lit vv \<in> c" using pure_vars_occurs by blast
  with vv show ?thesis
    unfolding pure_drop_def by (intro length_filter_less[of c]) auto
qed

termination pure_literal_elim
  by (relation "measure (\<lambda>(cs, a). length cs)") (auto simp: pure_drop_length)

declare pure_literal_elim.simps [simp del]

section \<open>Assignments only grow, and the search ends\<close>

lemma up_units_mono:
  "up_units ls cs a = Inl (cs', a', f) \<Longrightarrow> a \<subseteq>\<^sub>m a'"
  "up_units ls cs a = Inr (cs', a') \<Longrightarrow> a \<subseteq>\<^sub>m a'"
proof (induction ls arbitrary: cs a)
  case Nil
  { case 1 then show ?case by simp }
  { case 2 then show ?case by simp }
next
  case (Cons lit rest)
  { case 1
    show ?case
    proof (cases "a \<bar>lit\<bar>")
      case None
      then have ext: "a \<subseteq>\<^sub>m a(\<bar>lit\<bar> \<mapsto> (lit > 0))" by (auto simp: map_le_def)
      show ?thesis
      proof (cases "up_simplify lit cs")
        case N: None
        with None 1 ext show ?thesis by (simp add: Let_def)
      next
        case (Some ncs)
        with None 1 have "up_units rest ncs (a(\<bar>lit\<bar> \<mapsto> (lit > 0))) = Inl (cs', a', f)"
          by (simp add: Let_def)
        from Cons.IH(1)[OF this] ext show ?thesis by (rule map_le_trans[rotated])
      qed
    next
      case (Some b)
      with 1 Cons.IH(1)[of cs a] show ?thesis by (auto simp: Let_def split: if_splits)
    qed }
  { case 2
    show ?case
    proof (cases "a \<bar>lit\<bar>")
      case None
      then have ext: "a \<subseteq>\<^sub>m a(\<bar>lit\<bar> \<mapsto> (lit > 0))" by (auto simp: map_le_def)
      show ?thesis
      proof (cases "up_simplify lit cs")
        case N: None
        with None 2 ext show ?thesis by (simp add: Let_def)
      next
        case (Some ncs)
        with None 2 have "up_units rest ncs (a(\<bar>lit\<bar> \<mapsto> (lit > 0))) = Inr (cs', a')"
          by (simp add: Let_def)
        from Cons.IH(2)[OF this] ext show ?thesis by (rule map_le_trans[rotated])
      qed
    next
      case (Some b)
      with 2 Cons.IH(2)[of cs a] show ?thesis by (auto simp: Let_def split: if_splits)
    qed }
qed

lemma unit_propagate_mono:
  assumes "unit_propagate cs a = Some r"
  shows "a \<subseteq>\<^sub>m fst (snd r)"
proof (rule unit_propagate.raw_induct[where P = "\<lambda>cs a r. a \<subseteq>\<^sub>m fst (snd r)", OF _ assms], goal_cases)
  case (1 up cs a r)
  show ?case
  proof (cases "unit_lits_of cs = []")
    case True
    with 1(2) show ?thesis by (auto simp: Let_def)
  next
    case False
    show ?thesis
    proof (cases "up_units (unit_lits_of cs) cs a")
      case (Inl x)
      with False 1(2) have "r = x" by (simp add: Let_def)
      with Inl up_units_mono(1)[of "unit_lits_of cs" cs a "fst r" "fst (snd r)" "snd (snd r)"]
      show ?thesis by simp
    next
      case (Inr y)
      obtain cs1 a1 where y: "y = (cs1, a1)" by (cases y)
      with Inr False 1(2) have "up cs1 a1 = Some r" by (simp add: Let_def)
      from 1(1)[OF this] up_units_mono(2)[OF Inr[unfolded y]]
      show ?thesis by (rule map_le_trans[rotated])
    qed
  qed
qed

lemma pure_assign_mono: "a \<subseteq>\<^sub>m pure_assign (pure_vars cs a) a"
  by (auto simp: map_le_def pure_assign_def pure_vars_True_iff pure_vars_False_iff)

lemma pure_literal_elim_mono: "a \<subseteq>\<^sub>m snd (pure_literal_elim cs a)"
proof (induction cs a rule: pure_literal_elim.induct)
  case (1 cs a)
  show ?case
  proof (cases "pure_vars cs a = {}")
    case True
    then show ?thesis by (simp add: pure_literal_elim.simps[of cs a])
  next
    case False
    with 1 have "pure_assign (pure_vars cs a) a \<subseteq>\<^sub>m snd (pure_literal_elim cs a)"
      by (simp add: pure_literal_elim.simps[of cs a] Let_def)
    with pure_assign_mono[of a cs] show ?thesis by (rule map_le_trans)
  qed
qed

lemma choose_fold_Some:
  "fold (choose_step cs a) xs (bv, bs, bp) = (Some v, s, p) \<Longrightarrow>
     (bv = Some v \<and> s = bs \<and> p = bp) \<or> (v \<in> set xs \<and> v \<notin> dom a)"
proof (induction xs arbitrary: bv bs bp)
  case Nil
  then show ?case by simp
next
  case (Cons x xs)
  obtain bv' bs' bp' where st: "choose_step cs a x (bv, bs, bp) = (bv', bs', bp')"
    by (cases "choose_step cs a x (bv, bs, bp)")
  with Cons.prems have "fold (choose_step cs a) xs (bv', bs', bp') = (Some v, s, p)" by simp
  from Cons.IH[OF this] st show ?case
    by (auto simp: choose_step_def Let_def split: if_splits)
qed

lemma choose_branch_var_Some:
  assumes "choose_branch_var cs a n = (Some v, p)"
  shows "1 \<le> v \<and> v \<le> n \<and> v \<notin> dom a"
proof -
  obtain bv bs bp where f: "fold (choose_step cs a) [1..n] (None, - 1, True) = (bv, bs, bp)"
    by (cases "fold (choose_step cs a) [1..n] (None, - 1, True)")
  with assms have "bv = Some v" by (simp add: choose_branch_var_def)
  with f choose_fold_Some[of cs a "[1..n]" None "- 1" True v bs bp] show ?thesis by auto
qed

lemma unassigned_less:
  assumes "a \<subseteq>\<^sub>m a'" "1 \<le> v" "v \<le> n" "v \<notin> dom a'"
  shows "unassigned (insert v (dom a')) n < unassigned (dom a) n"
proof -
  from assms(1) have "dom a \<subseteq> dom a'" by (rule map_le_implies_dom_le)
  with assms have "v \<in> {1..n} - dom a" "v \<notin> {1..n} - insert v (dom a')"
    "{1..n} - insert v (dom a') \<subseteq> {1..n} - dom a" by auto
  then have "{1..n} - insert v (dom a') \<subset> {1..n} - dom a" by blast
  then show ?thesis unfolding unassigned_def by (intro psubset_card_mono) auto
qed

termination dpll
proof (relation "measure (\<lambda>x. case x of
          Inl (cs, a, n) \<Rightarrow> 4 * unassigned (dom a) n
        | Inr (cs, a, n, var, vals) \<Rightarrow> 4 * unassigned (insert var (dom a)) n + 1 + length vals)",
       goal_cases)
  case 1
  then show ?case by simp
next
  case (2 cs a n r cs1 r' a1 conflict cs2 a2 bv pref v)
  from 2(1) have "a \<subseteq>\<^sub>m fst (snd r)" by (rule unit_propagate_mono)
  with 2(2,3) have "a \<subseteq>\<^sub>m a1" by auto
  moreover have "a1 \<subseteq>\<^sub>m snd (pure_literal_elim cs1 a1)" by (rule pure_literal_elim_mono)
  with 2(5)[symmetric] have "a1 \<subseteq>\<^sub>m a2" by simp
  ultimately have "a \<subseteq>\<^sub>m a2" by (rule map_le_trans)
  moreover from 2(8,9) have "choose_branch_var cs2 a2 n = (Some v, pref)" by simp
  then have "1 \<le> v \<and> v \<le> n \<and> v \<notin> dom a2" by (rule choose_branch_var_Some)
  ultimately have "unassigned (insert v (dom a2)) n < unassigned (dom a) n"
    by (intro unassigned_less) auto
  then show ?case by simp
next
  case 3
  then show ?case by simp
next
  case 4
  then show ?case by simp
next
  case 5
  then show ?case by simp
qed

declare dpll.simps [simp del]

section \<open>The public name\<close>

text \<open>
  C3. The module binds \<open>solve_cnf\<close> twice; the second \<open>def\<close>, whose body only raises,
  replaces the first. So for every input the call of the public \<open>solve_cnf\<close> raises
  \<open>NotImplementedError\<close>, and it never returns a pair of status and model.
\<close>

theorem solve_cnf_public_raises:
  "solve_cnf clauses num_vars = Some (Inl NotImplementedError) \<and>
   (\<forall>r. solve_cnf clauses num_vars \<noteq> Some (Inr r))"
  by (simp add: solve_cnf_def exec_defs_def solver_module_def solve_cnf_second_def)

end
